theory Spec2Isabelle
  imports Complex_Main "HOL-Library.Sublist" "HOL-Library.Word" "HOL-Library.Multiset"
begin

section \<open>Animation data (three.js objects used by AvatarViewer.tsx)\<close>

text \<open>
  The concrete classes of three.js keyframe tracks. The source never names them: it reads
  \<^verbatim>\<open>track.constructor\<close> and calls it again, so the class of a track is a value that is
  carried along.
\<close>

datatype TrackConstructor =
    BooleanKeyframeTrack
  | ColorKeyframeTrack
  | NumberKeyframeTrack
  | QuaternionKeyframeTrack
  | StringKeyframeTrack
  | VectorKeyframeTrack

text \<open>
  A \<^verbatim>\<open>Float32Array\<close> is a sequence of 32-bit patterns. The source only passes the arrays
  on, so no floating-point arithmetic is modelled.
\<close>

type_synonym Float32Array = "32 word list"

record KeyframeTrack =
  track_constructor :: TrackConstructor
  track_name :: string
  track_times :: Float32Array
  track_values :: Float32Array

record AnimationClip =
  clip_name :: string
  clip_duration :: real
  clip_tracks :: "KeyframeTrack list"

section \<open>retargetAnimation (AvatarViewer.tsx, lines 16-48)\<close>

text \<open>\<^verbatim>\<open>String.prototype.endsWith\<close>: the last \<open>length searchString\<close> characters are compared.\<close>

definition endsWith :: "string \<Rightarrow> string \<Rightarrow> bool" where
  "endsWith str searchString =
     (length searchString \<le> length str \<and>
      drop (length str - length searchString) str = searchString)"

definition mixamorig :: string where
  "mixamorig = ''mixamorig''"

text \<open>
  \<^verbatim>\<open>track.name.replace(/^mixamorig/, '')\<close>: the pattern is anchored at the start of the
  string and has no flags, so at most one occurrence, the leading one, is removed.
\<close>

definition replace_mixamorig :: "string \<Rightarrow> string" where
  "replace_mixamorig str =
     (if take (length mixamorig) str = mixamorig then drop (length mixamorig) str else str)"

text \<open>
  \<^verbatim>\<open>new TrackConstructor(newName, track.times, track.values)\<close>: a track of the class
  of \<open>track\<close> with the new name and the arrays of \<open>track\<close>.
\<close>

definition newTrack :: "KeyframeTrack \<Rightarrow> string \<Rightarrow> KeyframeTrack" where
  "newTrack track newName =
     \<lparr> track_constructor = track_constructor track,
       track_name = newName,
       track_times = track_times track,
       track_values = track_values track \<rparr>"

text \<open>
  The \<^verbatim>\<open>for (const track of clip.tracks)\<close> loop; the second argument is the array
  \<^verbatim>\<open>newTracks\<close>, to which \<^verbatim>\<open>push\<close> appends.
\<close>

fun retarget_loop :: "KeyframeTrack list \<Rightarrow> KeyframeTrack list \<Rightarrow> KeyframeTrack list" where
  "retarget_loop [] newTracks = newTracks"
| "retarget_loop (track # rest) newTracks =
     (if endsWith (track_name track) ''.position'' \<or> endsWith (track_name track) ''.scale''
      then retarget_loop rest newTracks
      else retarget_loop rest
             (newTracks @ [newTrack track (replace_mixamorig (track_name track))]))"

definition retargetAnimation :: "AnimationClip \<Rightarrow> AnimationClip" where
  "retargetAnimation clip =
     \<lparr> clip_name = clip_name clip,
       clip_duration = clip_duration clip,
       clip_tracks = retarget_loop (clip_tracks clip) [] \<rparr>"

text \<open>The tracks the loop keeps: those it does not skip with \<^verbatim>\<open>continue\<close>.\<close>

definition retained :: "KeyframeTrack \<Rightarrow> bool" where
  "retained track =
     (\<not> (endsWith (track_name track) ''.position'' \<or> endsWith (track_name track) ''.scale''))"

section \<open>Actions and the mixer (three.js objects used by the component)\<close>

text \<open>
  Modelled from the spec: \<^verbatim>\<open>THREE.AnimationAction\<close> is a class of the rendering
  library, not of this repository. The spec describes an Action as a handle that binds a clip
  to the mixer, supports play, stop and reset, and tracks whether it is currently influencing
  the skeleton: \<open>running\<close> is that flag and \<open>time\<close> the playback position. Only what the
  spec says of each operation is modelled: play starts the action, stop halts it, reset puts
  it at its first frame.
\<close>

record AnimationAction =
  action_clip :: AnimationClip
  running :: bool
  time :: real

definition play :: "AnimationAction \<Rightarrow> AnimationAction" where
  "play action = action\<lparr>running := True\<rparr>"

definition stop :: "AnimationAction \<Rightarrow> AnimationAction" where
  "stop action = action\<lparr>running := False\<rparr>"

definition reset :: "AnimationAction \<Rightarrow> AnimationAction" where
  "reset action = action\<lparr>time := 0\<rparr>"

text \<open>
  Modelled from the spec: the mixer owns the actions, and the component holds references to
  them. The mixer is the list of its actions and a reference is an index into it, so that
  \<^verbatim>\<open>actionsRef.current[name]\<close> and \<^verbatim>\<open>currentActionRef.current\<close> can alias one
  action. \<^verbatim>\<open>mixer.clipAction(clip)\<close> is only called on a clip that
  \<^verbatim>\<open>retargetAnimation\<close> has just constructed, for which it creates a new action, stopped and at its
  first frame.
\<close>

type_synonym AnimationMixer = "AnimationAction list"

definition clipAction :: "AnimationMixer \<Rightarrow> AnimationClip \<Rightarrow> AnimationMixer \<times> nat" where
  "clipAction mixer clip =
     (mixer @ [\<lparr> action_clip = clip, running = False, time = 0 \<rparr>], length mixer)"

text \<open>The loaded FBX scene: only its \<^verbatim>\<open>animations\<close> array is read.\<close>

record Group =
  animations :: "AnimationClip list"

section \<open>The component state (AvatarViewer.tsx, lines 51-58 and 110-111)\<close>

text \<open>
  The refs and state variables of the component, and the counter \<^verbatim>\<open>loadedAnimations\<close>
  of the avatar-load callback. \<^verbatim>\<open>actionsRef\<close> is keyed by the three names the loaders and
  the buttons pass.
\<close>

record AvatarViewer =
  mixerRef :: "AnimationMixer option"
  actionsRef :: "string \<rightharpoonup> nat"
  currentActionRef :: "nat option"
  isLoading :: bool
  error :: "string option"
  loadedAnimations :: nat

definition totalAnimations :: nat where
  "totalAnimations = 3"

definition initial :: AvatarViewer where
  "initial =
     \<lparr> mixerRef = None, actionsRef = Map.empty, currentActionRef = None,
       isLoading = True, error = None, loadedAnimations = 0 \<rparr>"

text \<open>
  The success callback of the avatar load up to the start of the animation loads (lines 97-111):
  the mixer is constructed and the counter starts at zero.
\<close>

definition onAvatarLoaded :: "AvatarViewer \<Rightarrow> AvatarViewer" where
  "onAvatarLoaded s = s\<lparr>mixerRef := Some [], loadedAnimations := 0\<rparr>"

text \<open>A method call on the action behind a reference.\<close>

definition on_action ::
    "nat \<Rightarrow> (AnimationAction \<Rightarrow> AnimationAction) \<Rightarrow> AvatarViewer \<Rightarrow> AvatarViewer" where
  "on_action ref method s =
     s\<lparr>mixerRef := map_option (\<lambda>mixer. mixer[ref := method (mixer ! ref)]) (mixerRef s)\<rparr>"

section \<open>onAnimationLoaded (lines 113-130)\<close>

text \<open>
  The handler is a closure of the avatar-load callback, so it exists only once the mixer does;
  the first case is never run by the component. \<^verbatim>\<open>fbxScene.animations[0]\<close> is
  \<^verbatim>\<open>undefined\<close> on an empty array, and then the body of \<^verbatim>\<open>if (animation)\<close> is skipped.
\<close>

definition onAnimationLoaded :: "string \<Rightarrow> Group \<Rightarrow> AvatarViewer \<Rightarrow> AvatarViewer" where
  "onAnimationLoaded name fbxScene s =
     (case mixerRef s of
        None \<Rightarrow> s
      | Some mixer \<Rightarrow>
          (case animations fbxScene of
             [] \<Rightarrow> s
           | animation # _ \<Rightarrow>
               (let retargetedClip = retargetAnimation animation;
                    (mixer', action) = clipAction mixer retargetedClip;
                    s1 = s\<lparr> mixerRef := Some mixer',
                            actionsRef := (actionsRef s)(name \<mapsto> action),
                            loadedAnimations := loadedAnimations s + 1 \<rparr>
                in if loadedAnimations s1 = totalAnimations
                   then
                     (let s2 = (case actionsRef s1 ''walking'' of
                                  Some walking \<Rightarrow>
                                    on_action walking play (s1\<lparr>currentActionRef := Some walking\<rparr>)
                                | None \<Rightarrow> s1)
                      in s2\<lparr>isLoading := False\<rparr>)
                   else s1)))"

text \<open>The completions of the animation loads, in their order of arrival.\<close>

fun registerAll :: "(string \<times> Group) list \<Rightarrow> AvatarViewer \<Rightarrow> AvatarViewer" where
  "registerAll [] s = s"
| "registerAll ((name, fbxScene) # rest) s = registerAll rest (onAnimationLoaded name fbxScene s)"

section \<open>playAnimation (lines 191-205)\<close>

definition playAnimation :: "string \<Rightarrow> AvatarViewer \<Rightarrow> AvatarViewer" where
  "playAnimation animationName s =
     (case mixerRef s of
        None \<Rightarrow> s
      | Some _ \<Rightarrow>
          (let s1 = (case currentActionRef s of
                       Some current \<Rightarrow> on_action current stop s
                     | None \<Rightarrow> s)
           in case actionsRef s1 animationName of
                Some action \<Rightarrow>
                  on_action action play
                    (on_action action reset (s1\<lparr>currentActionRef := Some action\<rparr>))
              | None \<Rightarrow> s1))"

section \<open>The animation loop (lines 146-153)\<close>

text \<open>
  Modelled from the spec: \<^verbatim>\<open>mixer.update(delta)\<close> is a method of the rendering library.
  The spec says that the pose of the active action is advanced by the elapsed time and that
  nothing happens when no action is active: the playback position of every running action
  moves on by \<open>delta\<close>. Looping at the end of a clip is not modelled.
\<close>

definition advance :: "real \<Rightarrow> AnimationAction \<Rightarrow> AnimationAction" where
  "advance delta action =
     (if running action then action\<lparr>time := time action + delta\<rparr> else action)"

text \<open>One frame of \<^verbatim>\<open>animate\<close>, \<open>delta\<close> seconds after the previous one.\<close>

definition animate :: "real \<Rightarrow> AvatarViewer \<Rightarrow> AvatarViewer" where
  "animate delta s = s\<lparr>mixerRef := map_option (map (advance delta)) (mixerRef s)\<rparr>"

section \<open>Observations of a state\<close>

definition actions_of :: "AvatarViewer \<Rightarrow> AnimationAction list" where
  "actions_of s = (case mixerRef s of None \<Rightarrow> [] | Some mixer \<Rightarrow> mixer)"

text \<open>The references of the actions that are running.\<close>

definition running_refs :: "AnimationAction list \<Rightarrow> nat list" where
  "running_refs actions = filter (\<lambda>ref. running (actions ! ref)) [0..<length actions]"

definition active_refs :: "AvatarViewer \<Rightarrow> nat list" where
  "active_refs s = running_refs (actions_of s)"

text \<open>The action registered under a name, read through the reference.\<close>

definition registered :: "AvatarViewer \<Rightarrow> string \<Rightarrow> AnimationAction option" where
  "registered s name =
     (case actionsRef s name of
        None \<Rightarrow> None
      | Some ref \<Rightarrow> if ref < length (actions_of s) then Some (actions_of s ! ref) else None)"

section \<open>Auxiliary notions for the proofs\<close>

text \<open>The action that \<open>clipAction\<close> creates for the first clip of a loaded scene.\<close>

definition new_action :: "AnimationClip \<Rightarrow> AnimationAction" where
  "new_action animation =
     \<lparr> action_clip = retargetAnimation animation, running = False, time = 0 \<rparr>"

text \<open>A completion that registers an action: its scene has an animation.\<close>

definition registers :: "string \<times> Group \<Rightarrow> bool" where
  "registers e = (animations (snd e) \<noteq> [])"

text \<open>
  The invariant of the states that the completions of the animation loads reach from the
  state in which the mixer has just been constructed: the loading indicator is set exactly
  while the counter is below the total, until then no action is selected or running, and
  every action is at its first frame.
\<close>

definition loading_phase :: "AvatarViewer \<Rightarrow> bool" where
  "loading_phase s =
     (mixerRef s \<noteq> None \<and>
      (\<forall>name ref. actionsRef s name = Some ref \<longrightarrow> ref < length (actions_of s)) \<and>
      (\<forall>action \<in> set (actions_of s). time action = 0) \<and>
      (isLoading s \<longleftrightarrow> loadedAnimations s < totalAnimations) \<and>
      (loadedAnimations s < totalAnimations \<longrightarrow>
         currentActionRef s = None \<and> (\<forall>action \<in> set (actions_of s). \<not> running action)) \<and>
      error s = None)"

text \<open>
  The state in which the three names are registered with the retargeted clips, walking is
  the current action and the only one running, and every action is at its first frame.
\<close>

definition ready_view ::
    "AvatarViewer \<Rightarrow> AnimationClip \<Rightarrow> AnimationClip \<Rightarrow> AnimationClip \<Rightarrow> bool" where
  "ready_view s walking_clip sitting_clip standing_up_clip =
    (\<not> isLoading s \<and> error s = None \<and>
     dom (actionsRef s) = {''walking'', ''sitting'', ''standing_up''} \<and>
     registered s ''walking'' =
       Some \<lparr> action_clip = retargetAnimation walking_clip, running = True, time = 0 \<rparr> \<and>
     registered s ''sitting'' =
       Some \<lparr> action_clip = retargetAnimation sitting_clip, running = False, time = 0 \<rparr> \<and>
     registered s ''standing_up'' =
       Some \<lparr> action_clip = retargetAnimation standing_up_clip, running = False, time = 0 \<rparr> \<and>
     currentActionRef s = actionsRef s ''walking'' \<and>
     map Some (active_refs s) = [actionsRef s ''walking''])"

section \<open>Sample data\<close>

text \<open>
  The clip of the example in the spec, with tracks \<open>mixamorigHips.quaternion\<close>,
  \<open>mixamorigHips.position\<close> and \<open>mixamorigSpine.quaternion\<close>, and a clip whose names do
  not carry the prefix. \<open>1065353216\<close> is the bit pattern of the float \<open>1.0\<close>.
\<close>

definition sample_hips_rotation :: KeyframeTrack where
  "sample_hips_rotation =
     \<lparr> track_constructor = QuaternionKeyframeTrack, track_name = ''mixamorigHips.quaternion'',
       track_times = [0, 1065353216],
       track_values = [0, 0, 0, 1065353216, 0, 0, 0, 1065353216] \<rparr>"

definition sample_hips_position :: KeyframeTrack where
  "sample_hips_position =
     \<lparr> track_constructor = VectorKeyframeTrack, track_name = ''mixamorigHips.position'',
       track_times = [0], track_values = [0, 1065353216, 0] \<rparr>"

definition sample_spine_rotation :: KeyframeTrack where
  "sample_spine_rotation =
     \<lparr> track_constructor = QuaternionKeyframeTrack, track_name = ''mixamorigSpine.quaternion'',
       track_times = [0], track_values = [0, 0, 0, 1065353216] \<rparr>"

definition sample_clip :: AnimationClip where
  "sample_clip =
     \<lparr> clip_name = ''mixamo.com'', clip_duration = 1,
       clip_tracks = [sample_hips_rotation, sample_hips_position, sample_spine_rotation] \<rparr>"

definition sample_prefix_free :: AnimationClip where
  "sample_prefix_free =
     \<lparr> clip_name = ''mixamo.com'', clip_duration = 1,
       clip_tracks =
         [newTrack sample_hips_rotation ''Hips.quaternion'',
          newTrack sample_hips_position ''Hips.scale'',
          newTrack sample_spine_rotation ''Spine.quaternion''] \<rparr>"

text \<open>Loaded scenes: one clip, one clip, two clips, and no clip.\<close>

definition walking_fbx :: Group where
  "walking_fbx = \<lparr> animations = [sample_clip] \<rparr>"

definition sitting_fbx :: Group where
  "sitting_fbx = \<lparr> animations = [sample_prefix_free] \<rparr>"

definition standing_up_fbx :: Group where
  "standing_up_fbx = \<lparr> animations = [sample_clip\<lparr>clip_duration := 2\<rparr>, sample_prefix_free] \<rparr>"

definition empty_fbx :: Group where
  "empty_fbx = \<lparr> animations = [] \<rparr>"

text \<open>
  States of the component. In the first, the walking animation has loaded and its button has
  been pressed while the other two loads are pending. In the second, the sitting button was
  pressed after two loads, and the third load has completed since. The third is a state
  after some frames of the walking animation. In the fourth, the walking button was pressed
  after the first load, half a second of frames has passed and the sitting animation has
  loaded. In the fifth, the sitting button was pressed after two loads.
\<close>

definition walking_selected :: AvatarViewer where
  "walking_selected =
     playAnimation ''walking''
       (onAnimationLoaded ''walking'' walking_fbx (onAvatarLoaded initial))"

definition switched_while_loading :: AvatarViewer where
  "switched_while_loading =
     onAnimationLoaded ''standing_up'' standing_up_fbx
       (playAnimation ''sitting''
          (onAnimationLoaded ''sitting'' sitting_fbx
             (onAnimationLoaded ''walking'' walking_fbx (onAvatarLoaded initial))))"

definition walking_in_progress :: AvatarViewer where
  "walking_in_progress =
     \<lparr> mixerRef = Some
         [\<lparr> action_clip = retargetAnimation sample_clip, running = True, time = 3 / 2 \<rparr>,
          \<lparr> action_clip = retargetAnimation sample_prefix_free, running = False, time = 0 \<rparr>,
          \<lparr> action_clip = retargetAnimation (sample_clip\<lparr>clip_duration := 2\<rparr>),
            running = False, time = 0 \<rparr>],
       actionsRef = [''walking'' \<mapsto> 0, ''sitting'' \<mapsto> 1, ''standing_up'' \<mapsto> 2],
       currentActionRef = Some 0, isLoading = False, error = None, loadedAnimations = 3 \<rparr>"

definition walking_midway :: AvatarViewer where
  "walking_midway =
     onAnimationLoaded ''sitting'' sitting_fbx
       (animate (1 / 2)
          (playAnimation ''walking''
             (onAnimationLoaded ''walking'' walking_fbx (onAvatarLoaded initial))))"

definition sitting_pressed_early :: AvatarViewer where
  "sitting_pressed_early =
     playAnimation ''sitting''
       (onAnimationLoaded ''sitting'' sitting_fbx
          (onAnimationLoaded ''walking'' walking_fbx (onAvatarLoaded initial)))"

section \<open>Facts about the string operations\<close>

lemma endsWith_suffix: "endsWith str s = suffix s str"
proof
  assume "endsWith str s"
  then have "str = take (length str - length s) str @ s"
    by (metis append_take_drop_id endsWith_def)
  then show "suffix s str"
    by (rule suffixI)
next
  assume "suffix s str"
  then obtain p where "str = p @ s"
    by (auto simp: suffix_def)
  then show "endsWith str s"
    by (simp add: endsWith_def)
qed

lemma replace_mixamorig_suffix: "suffix (replace_mixamorig str) str"
  by (simp add: replace_mixamorig_def suffix_drop)

lemma endsWith_replace_mixamorig:
  "endsWith (replace_mixamorig str) s \<Longrightarrow> endsWith str s"
  unfolding endsWith_suffix
  using replace_mixamorig_suffix suffix_order.trans by blast

lemma replace_mixamorig_prefixed: "replace_mixamorig (mixamorig @ rest) = rest"
  by (simp add: replace_mixamorig_def)

lemma replace_mixamorig_unprefixed:
  "\<not> prefix mixamorig str \<Longrightarrow> replace_mixamorig str = str"
proof -
  assume np: "\<not> prefix mixamorig str"
  have "take (length mixamorig) str \<noteq> mixamorig"
  proof
    assume "take (length mixamorig) str = mixamorig"
    then have "str = mixamorig @ drop (length mixamorig) str"
      by (metis append_take_drop_id)
    then have "prefix mixamorig str"
      by (rule prefixI)
    with np show False by simp
  qed
  then show ?thesis
    by (simp add: replace_mixamorig_def)
qed

lemma dotted_suffix_past_prefix:
  assumes "suffix (c # p) (pre @ rest)" and "c \<notin> set pre"
  shows "suffix (c # p) rest"
proof -
  from assms(1) have "suffix (c # p) rest \<or> (\<exists>xs'. c # p = xs' @ rest \<and> suffix xs' pre)"
    by (simp add: suffix_append)
  then show ?thesis
  proof
    assume "suffix (c # p) rest"
    then show ?thesis .
  next
    assume "\<exists>xs'. c # p = xs' @ rest \<and> suffix xs' pre"
    then obtain xs' where eq: "c # p = xs' @ rest" and suf: "suffix xs' pre"
      by blast
    show ?thesis
    proof (cases xs')
      case Nil
      with eq show ?thesis by simp
    next
      case (Cons y ys)
      with eq have "y = c" by simp
      with Cons suf have "c \<in> set pre"
        by (auto simp: suffix_def)
      with assms(2) show ?thesis by simp
    qed
  qed
qed

lemma endsWith_dotted_replace_mixamorig:
  "endsWith (replace_mixamorig str) (CHR ''.'' # p) = endsWith str (CHR ''.'' # p)"
proof (cases "take (length mixamorig) str = mixamorig")
  case True
  then have split: "str = mixamorig @ drop (length mixamorig) str"
    by (metis append_take_drop_id)
  have nodot: "CHR ''.'' \<notin> set mixamorig"
    by (simp add: mixamorig_def)
  have "suffix (CHR ''.'' # p) str \<Longrightarrow> suffix (CHR ''.'' # p) (drop (length mixamorig) str)"
    using dotted_suffix_past_prefix [OF _ nodot] split by metis
  moreover have "suffix (CHR ''.'' # p) (drop (length mixamorig) str) \<Longrightarrow> suffix (CHR ''.'' # p) str"
    using suffix_drop suffix_order.trans by blast
  ultimately show ?thesis
    using True by (auto simp: endsWith_suffix replace_mixamorig_def)
next
  case False
  then show ?thesis
    by (simp add: replace_mixamorig_def)
qed

section \<open>The loop as filter and map\<close>

lemma retarget_loop_acc:
  "retarget_loop tracks newTracks =
     newTracks @ map (\<lambda>t. newTrack t (replace_mixamorig (track_name t))) (filter retained tracks)"
  by (induction tracks arbitrary: newTracks) (simp_all add: retained_def)

lemma retargetAnimation_tracks:
  "clip_tracks (retargetAnimation clip) =
     map (\<lambda>t. newTrack t (replace_mixamorig (track_name t))) (filter retained (clip_tracks clip))"
  by (simp add: retargetAnimation_def retarget_loop_acc)

section \<open>Facts about the sample clips\<close>

lemmas sample_defs =
  sample_clip_def sample_hips_rotation_def sample_hips_position_def sample_spine_rotation_def
  sample_prefix_free_def

lemma sample_retained:
  "filter retained (clip_tracks sample_clip) = [sample_hips_rotation, sample_spine_rotation]"
  by (simp add: sample_defs retained_def endsWith_def)

lemma newTrack_same_name: "newTrack track (track_name track) = track"
  by (simp add: newTrack_def)

lemma retained_newTrack: "retained (newTrack track n) = (\<not> (endsWith n ''.position'' \<or> endsWith n ''.scale''))"
  by (simp add: retained_def newTrack_def)

section \<open>The retargeter\<close>

text \<open>
  Claim C2. For every source clip, the clip that \<open>retargetAnimation\<close> returns has no position
  track and no scale track, whatever mix of tracks the source has. The property of a track is
  read as the source reads it, from the end of the track's name: the number of output tracks
  whose name ends with \<open>.position\<close> is zero, and so is the number of those whose name ends
  with \<open>.scale\<close>.
\<close>

theorem retarget_drops_position_and_scale:
  "length (filter (\<lambda>t. endsWith (track_name t) ''.position'')
             (clip_tracks (retargetAnimation clip))) = 0 \<and>
   length (filter (\<lambda>t. endsWith (track_name t) ''.scale'')
             (clip_tracks (retargetAnimation clip))) = 0"
proof -
  have "\<not> endsWith (track_name out) ''.position'' \<and> \<not> endsWith (track_name out) ''.scale''"
    if "out \<in> set (clip_tracks (retargetAnimation clip))" for out
  proof -
    from that obtain t where t: "retained t" and out: "out = newTrack t (replace_mixamorig (track_name t))"
      by (auto simp: retargetAnimation_tracks)
    from out have "track_name out = replace_mixamorig (track_name t)"
      by (simp add: newTrack_def)
    with t show ?thesis
      using endsWith_replace_mixamorig by (auto simp: retained_def)
  qed
  then show ?thesis
    by (simp add: filter_empty_conv)
qed

text \<open>On the sample clip, whose second track is a position track.\<close>

theorem retarget_drops_position_and_scale_witness:
  "clip_tracks sample_clip = [sample_hips_rotation, sample_hips_position, sample_spine_rotation] \<and>
   endsWith (track_name sample_hips_position) ''.position'' \<and>
   length (filter (\<lambda>t. endsWith (track_name t) ''.position'')
             (clip_tracks (retargetAnimation sample_clip))) = 0 \<and>
   length (filter (\<lambda>t. endsWith (track_name t) ''.scale'')
             (clip_tracks (retargetAnimation sample_clip))) = 0"
  using retarget_drops_position_and_scale [of sample_clip]
  by (simp add: sample_clip_def sample_hips_position_def endsWith_def)

text \<open>
  Claim C3. For every source clip, the names of the output tracks are, in the source's order,
  the names of the source tracks that are neither position nor scale tracks, each without the
  prefix \<open>mixamorig\<close> when the name starts with it and unchanged otherwise. The property
  suffix is preserved: the output name ends with a dot followed by \<open>property\<close> exactly when
  the source name does.
\<close>

theorem retarget_track_names:
  "list_all2
     (\<lambda>source out.
        (\<forall>rest. track_name source = mixamorig @ rest \<longrightarrow> track_name out = rest) \<and>
        (\<not> prefix mixamorig (track_name source) \<longrightarrow> track_name out = track_name source) \<and>
        (\<forall>property. endsWith (track_name out) (CHR ''.'' # property) =
                     endsWith (track_name source) (CHR ''.'' # property)))
     (filter retained (clip_tracks clip))
     (clip_tracks (retargetAnimation clip))"
  unfolding retargetAnimation_tracks list_all2_map2
  by (rule list_all2_refl)
     (simp add: newTrack_def replace_mixamorig_prefixed replace_mixamorig_unprefixed
        endsWith_dotted_replace_mixamorig)

text \<open>On the sample clip, the example of the spec.\<close>

theorem retarget_track_names_witness:
  "map track_name (clip_tracks sample_clip) =
     [''mixamorigHips.quaternion'', ''mixamorigHips.position'', ''mixamorigSpine.quaternion''] \<and>
   map track_name (clip_tracks (retargetAnimation sample_clip)) =
     [''Hips.quaternion'', ''Spine.quaternion'']"
proof -
  have hips: "track_name sample_hips_rotation = mixamorig @ ''Hips.quaternion''"
    and spine: "track_name sample_spine_rotation = mixamorig @ ''Spine.quaternion''"
    by (simp_all add: sample_defs mixamorig_def)
  from retarget_track_names [of sample_clip] obtain a b
    where outs: "clip_tracks (retargetAnimation sample_clip) = [a, b]"
      and a: "\<forall>rest. track_name sample_hips_rotation = mixamorig @ rest \<longrightarrow> track_name a = rest"
      and b: "\<forall>rest. track_name sample_spine_rotation = mixamorig @ rest \<longrightarrow> track_name b = rest"
    unfolding sample_retained by (auto simp: list_all2_Cons1)
  from a hips have "track_name a = ''Hips.quaternion''" by blast
  moreover from b spine have "track_name b = ''Spine.quaternion''" by blast
  ultimately show ?thesis
    using outs by (simp add: sample_defs)
qed

text \<open>
  Claim C4. For every source clip, the returned clip has the name and the duration of the
  source, and each output track has the class, the times and the values of the source track
  it comes from.
\<close>

theorem retarget_preserves_clip_and_samples:
  "clip_name (retargetAnimation clip) = clip_name clip \<and>
   clip_duration (retargetAnimation clip) = clip_duration clip \<and>
   list_all2
     (\<lambda>source out.
        track_constructor out = track_constructor source \<and>
        track_times out = track_times source \<and>
        track_values out = track_values source)
     (filter retained (clip_tracks clip))
     (clip_tracks (retargetAnimation clip))"
proof -
  have "list_all2
     (\<lambda>source out.
        track_constructor out = track_constructor source \<and>
        track_times out = track_times source \<and>
        track_values out = track_values source)
     (filter retained (clip_tracks clip))
     (clip_tracks (retargetAnimation clip))"
    unfolding retargetAnimation_tracks list_all2_map2
    by (rule list_all2_refl) (simp add: newTrack_def)
  then show ?thesis
    by (simp add: retargetAnimation_def)
qed

text \<open>On the sample clip.\<close>

theorem retarget_preserves_clip_and_samples_witness:
  "clip_name (retargetAnimation sample_clip) = ''mixamo.com'' \<and>
   clip_duration (retargetAnimation sample_clip) = 1 \<and>
   map track_constructor (clip_tracks (retargetAnimation sample_clip)) =
     [QuaternionKeyframeTrack, QuaternionKeyframeTrack] \<and>
   map track_times (clip_tracks (retargetAnimation sample_clip)) = [[0, 1065353216], [0]] \<and>
   map track_values (clip_tracks (retargetAnimation sample_clip)) =
     [[0, 0, 0, 1065353216, 0, 0, 0, 1065353216], [0, 0, 0, 1065353216]]"
proof -
  from retarget_preserves_clip_and_samples [of sample_clip] obtain a b
    where "clip_tracks (retargetAnimation sample_clip) = [a, b]"
      and "track_constructor a = track_constructor sample_hips_rotation"
      and "track_times a = track_times sample_hips_rotation"
      and "track_values a = track_values sample_hips_rotation"
      and "track_constructor b = track_constructor sample_spine_rotation"
      and "track_times b = track_times sample_spine_rotation"
      and "track_values b = track_values sample_spine_rotation"
    unfolding sample_retained by (auto simp: list_all2_Cons1)
  moreover have "clip_name (retargetAnimation sample_clip) = ''mixamo.com''"
    and "clip_duration (retargetAnimation sample_clip) = 1"
    using retarget_preserves_clip_and_samples [of sample_clip] by (simp_all add: sample_defs)
  ultimately show ?thesis
    by (simp add: sample_defs)
qed

text \<open>
  Claim C5. For every clip none of whose track names starts with \<open>mixamorig\<close>, retargeting the
  retargeted clip gives the tracks of the retargeted clip: the same names, classes, times and
  values.
\<close>

theorem retarget_idempotent_prefix_free:
  assumes "\<forall>track \<in> set (clip_tracks clip). \<not> prefix mixamorig (track_name track)"
  shows "clip_tracks (retargetAnimation (retargetAnimation clip)) =
         clip_tracks (retargetAnimation clip)"
proof -
  have same: "map (\<lambda>t. newTrack t (replace_mixamorig (track_name t))) tracks = tracks"
    if "\<forall>track \<in> set tracks. \<not> prefix mixamorig (track_name track)" for tracks
    using that by (induction tracks) (simp_all add: replace_mixamorig_unprefixed newTrack_same_name)
  from assms have once: "clip_tracks (retargetAnimation clip) = filter retained (clip_tracks clip)"
    by (simp add: retargetAnimation_tracks same)
  from assms have "\<forall>track \<in> set (filter retained (clip_tracks clip)).
      \<not> prefix mixamorig (track_name track)"
    by simp
  then have "\<forall>track \<in> set (filter retained (filter retained (clip_tracks clip))).
      \<not> prefix mixamorig (track_name track)"
    by simp
  then have "clip_tracks (retargetAnimation (retargetAnimation clip)) =
      filter retained (filter retained (clip_tracks clip))"
    unfolding retargetAnimation_tracks [of "retargetAnimation clip"] once
    by (rule same)
  with once show ?thesis
    by simp
qed

text \<open>On the prefix-free sample clip, which still has a scale track to drop.\<close>

theorem retarget_idempotent_prefix_free_witness:
  "map (\<lambda>track. prefix mixamorig (track_name track)) (clip_tracks sample_prefix_free) =
     [False, False, False] \<and>
   map track_name (clip_tracks sample_prefix_free) =
     [''Hips.quaternion'', ''Hips.scale'', ''Spine.quaternion''] \<and>
   clip_tracks (retargetAnimation (retargetAnimation sample_prefix_free)) =
     clip_tracks (retargetAnimation sample_prefix_free)"
proof -
  have h: "\<forall>track \<in> set (clip_tracks sample_prefix_free). \<not> prefix mixamorig (track_name track)"
    by (simp add: sample_defs newTrack_def mixamorig_def)
  from retarget_idempotent_prefix_free [OF h] h show ?thesis
    by (simp add: sample_defs newTrack_def)
qed

section \<open>Facts about the running actions\<close>

lemma running_refs_snoc:
  "running_refs (actions @ [action]) =
     running_refs actions @ (if running action then [length actions] else [])"
proof -
  have "filter (\<lambda>ref. running ((actions @ [action]) ! ref)) [0..<length actions] =
        filter (\<lambda>ref. running (actions ! ref)) [0..<length actions]"
    by (rule filter_cong) (simp_all add: nth_append)
  then show ?thesis
    by (simp add: running_refs_def)
qed

lemma running_refs_empty:
  "(running_refs actions = []) = (\<forall>action \<in> set actions. \<not> running action)"
proof (induction actions rule: rev_induct)
  case Nil
  show ?case by (simp add: running_refs_def)
next
  case (snoc action actions)
  then show ?case by (auto simp: running_refs_snoc)
qed

lemma running_refs_play:
  assumes "\<forall>action \<in> set actions. \<not> running action" and "ref < length actions"
  shows "running_refs (actions[ref := play (actions ! ref)]) = [ref]"
  using assms
proof (induction actions rule: rev_induct)
  case Nil
  then show ?case by simp
next
  case (snoc action actions)
  show ?case
  proof (cases "ref < length actions")
    case True
    with snoc show ?thesis
      by (simp add: list_update_append nth_append running_refs_snoc)
  next
    case False
    with snoc.prems have "ref = length actions" by simp
    moreover from snoc.prems have "running_refs actions = []"
      by (simp add: running_refs_empty)
    ultimately show ?thesis
      by (simp add: running_refs_snoc play_def)
  qed
qed

lemma running_refs_Nil: "running_refs [] = []"
  by (simp add: running_refs_def)

lemma running_refs_Cons:
  "running_refs (action # actions) =
     (if running action then [0] else []) @ map Suc (running_refs actions)"
proof -
  have "[0..<length (action # actions)] = 0 # map Suc [0..<length actions]"
    by (simp add: upt_conv_Cons map_Suc_upt del: upt_Suc)
  then show ?thesis
    by (simp add: running_refs_def filter_map comp_def del: upt_Suc)
qed

lemma active_refs_empty:
  "(active_refs s = []) = (\<forall>action \<in> set (actions_of s). \<not> running action)"
  by (simp add: active_refs_def running_refs_empty)

lemma reset_keeps_stopped:
  assumes "\<forall>x \<in> set actions. \<not> running x"
  shows "\<forall>x \<in> set (actions[ref := reset (actions ! ref)]). \<not> running x"
proof (cases "ref < length actions")
  case True
  then have "actions ! ref \<in> set actions"
    by (rule nth_mem)
  with assms have "\<not> running (reset (actions ! ref))"
    by (simp add: reset_def)
  moreover have "set (actions[ref := reset (actions ! ref)]) \<subseteq>
      insert (reset (actions ! ref)) (set actions)"
    by (rule set_update_subset_insert)
  ultimately show ?thesis
    using assms by blast
next
  case False
  then have "actions[ref := reset (actions ! ref)] = actions"
    by (simp add: list_update_beyond)
  with assms show ?thesis
    by (simp only:)
qed

lemma stop_current_stops_all:
  assumes "set (running_refs actions) \<subseteq> set_option current"
  shows "\<forall>action \<in> set (case current of None \<Rightarrow> actions
           | Some ref \<Rightarrow> actions[ref := stop (actions ! ref)]). \<not> running action"
proof -
  have idle: "\<not> running (actions ! ref)" if "ref < length actions" and "Some ref \<noteq> current" for ref
  proof
    assume "running (actions ! ref)"
    with that(1) have "ref \<in> set (running_refs actions)"
      by (simp add: running_refs_def)
    with assms that(2) show False
      by (cases current) auto
  qed
  show ?thesis
  proof (cases current)
    case None
    with idle show ?thesis
      by (auto simp: in_set_conv_nth)
  next
    case (Some c)
    have "\<not> running ((actions[c := stop (actions ! c)]) ! ref)" if "ref < length actions" for ref
      using that idle [of ref] Some by (cases "ref = c") (simp_all add: stop_def)
    with Some show ?thesis
      by (auto simp: in_set_conv_nth)
  qed
qed

section \<open>Facts about the completions of the loads\<close>

lemma onAnimationLoaded_empty: "animations fbxScene = [] \<Longrightarrow> onAnimationLoaded name fbxScene s = s"
  by (simp add: onAnimationLoaded_def split: option.splits)

lemma registerAll_append: "registerAll (xs @ ys) s = registerAll ys (registerAll xs s)"
  by (induction xs s rule: registerAll.induct) simp_all

lemma onAnimationLoaded_mixer: "mixerRef s \<noteq> None \<Longrightarrow> mixerRef (onAnimationLoaded name fbxScene s) \<noteq> None"
  by (auto simp: onAnimationLoaded_def clipAction_def on_action_def Let_def split: option.splits list.splits)

lemma onAnimationLoaded_loaded:
  "mixerRef s \<noteq> None \<Longrightarrow>
   loadedAnimations (onAnimationLoaded name fbxScene s) =
     loadedAnimations s + (if animations fbxScene = [] then 0 else 1)"
  by (auto simp: onAnimationLoaded_def clipAction_def on_action_def Let_def split: option.splits list.splits)

lemma onAnimationLoaded_dom:
  "mixerRef s \<noteq> None \<Longrightarrow>
   dom (actionsRef (onAnimationLoaded name fbxScene s)) =
     (if animations fbxScene = [] then dom (actionsRef s) else insert name (dom (actionsRef s)))"
  by (auto simp: onAnimationLoaded_def clipAction_def on_action_def Let_def split: option.splits list.splits)

lemma registerAll_loaded:
  "mixerRef s \<noteq> None \<Longrightarrow>
   loadedAnimations (registerAll evs s) = loadedAnimations s + length (filter registers evs)"
  by (induction evs s rule: registerAll.induct)
     (simp_all add: onAnimationLoaded_mixer onAnimationLoaded_loaded registers_def)

lemma registerAll_dom:
  "mixerRef s \<noteq> None \<Longrightarrow>
   dom (actionsRef (registerAll evs s)) = dom (actionsRef s) \<union> fst ` set (filter registers evs)"
  by (induction evs s rule: registerAll.induct)
     (simp_all add: onAnimationLoaded_mixer onAnimationLoaded_dom registers_def)

lemma start_facts:
  "mixerRef (onAvatarLoaded initial) \<noteq> None"
  "loadedAnimations (onAvatarLoaded initial) = 0"
  "dom (actionsRef (onAvatarLoaded initial)) = {}"
  by (simp_all add: onAvatarLoaded_def initial_def)

lemma registry_card:
  assumes "distinct (map fst evs)"
  shows "card (dom (actionsRef (registerAll evs (onAvatarLoaded initial)))) =
         loadedAnimations (registerAll evs (onAvatarLoaded initial))"
proof -
  from assms have "distinct (map fst (filter registers evs))"
    by (rule distinct_map_filter)
  then have "card (fst ` set (filter registers evs)) = length (filter registers evs)"
    by (metis distinct_card length_map set_map)
  then show ?thesis
    by (simp add: registerAll_dom registerAll_loaded start_facts)
qed

text \<open>The three shapes of a completion that registers an action.\<close>

lemma step_not_third:
  assumes "mixerRef s = Some mixer" and "animations fbxScene = animation # others"
    and "Suc (loadedAnimations s) \<noteq> totalAnimations"
  shows "onAnimationLoaded name fbxScene s =
     s\<lparr> mixerRef := Some (mixer @ [new_action animation]),
        actionsRef := (actionsRef s)(name \<mapsto> length mixer),
        loadedAnimations := Suc (loadedAnimations s) \<rparr>"
  using assms by (simp add: onAnimationLoaded_def clipAction_def new_action_def)

lemma step_third_walking:
  assumes "mixerRef s = Some mixer" and "animations fbxScene = animation # others"
    and "Suc (loadedAnimations s) = totalAnimations"
    and "((actionsRef s)(name \<mapsto> length mixer)) ''walking'' = Some walking"
  shows "onAnimationLoaded name fbxScene s =
     s\<lparr> mixerRef := Some ((mixer @ [new_action animation])
                           [walking := play ((mixer @ [new_action animation]) ! walking)]),
        actionsRef := (actionsRef s)(name \<mapsto> length mixer),
        currentActionRef := Some walking,
        isLoading := False,
        loadedAnimations := Suc (loadedAnimations s) \<rparr>"
  using assms
  by (simp add: onAnimationLoaded_def clipAction_def new_action_def on_action_def Let_def
      split: if_splits)

lemma step_third_no_walking:
  assumes "mixerRef s = Some mixer" and "animations fbxScene = animation # others"
    and "Suc (loadedAnimations s) = totalAnimations"
    and "((actionsRef s)(name \<mapsto> length mixer)) ''walking'' = None"
  shows "onAnimationLoaded name fbxScene s =
     s\<lparr> mixerRef := Some (mixer @ [new_action animation]),
        actionsRef := (actionsRef s)(name \<mapsto> length mixer),
        isLoading := False,
        loadedAnimations := Suc (loadedAnimations s) \<rparr>"
  using assms
  by (simp add: onAnimationLoaded_def clipAction_def new_action_def on_action_def Let_def
      split: if_splits)

text \<open>The invariant holds along every sequence of completions.\<close>

lemma loading_phase_start: "loading_phase (onAvatarLoaded initial)"
  by (simp add: loading_phase_def onAvatarLoaded_def initial_def actions_of_def totalAnimations_def)

lemma loading_phase_step:
  assumes "loading_phase s"
  shows "loading_phase (onAnimationLoaded name fbxScene s)"
proof (cases "animations fbxScene")
  case Nil
  with assms show ?thesis by (simp add: onAnimationLoaded_empty)
next
  case (Cons animation others)
  from assms obtain mixer where m: "mixerRef s = Some mixer"
    by (auto simp: loading_phase_def)
  from assms m have refs: "\<And>n r. actionsRef s n = Some r \<Longrightarrow> r < length mixer"
    and times: "\<forall>action \<in> set mixer. time action = 0"
    by (auto simp: loading_phase_def actions_of_def)
  show ?thesis
  proof (cases "Suc (loadedAnimations s) = totalAnimations")
    case False
    from assms m refs False show ?thesis
      unfolding step_not_third [OF m Cons False]
      by (auto simp: loading_phase_def actions_of_def new_action_def less_Suc_eq)
  next
    case third: True
    show ?thesis
    proof (cases "((actionsRef s)(name \<mapsto> length mixer)) ''walking''")
      case None
      from assms m refs third show ?thesis
        unfolding step_third_no_walking [OF m Cons third None]
        by (auto simp: loading_phase_def actions_of_def new_action_def less_Suc_eq)
    next
      case (Some walking)
      have "time action = 0"
        if "action \<in> set ((mixer @ [new_action animation])
              [walking := play ((mixer @ [new_action animation]) ! walking)])" for action
      proof -
        from that have "action = play ((mixer @ [new_action animation]) ! walking) \<or>
            action \<in> set (mixer @ [new_action animation])"
          using set_update_subset_insert by fastforce
        moreover have "walking < length (mixer @ [new_action animation])"
          using Some refs by (auto split: if_splits simp: less_Suc_eq)
        ultimately show ?thesis
          using times by (auto simp: play_def new_action_def nth_append)
      qed
      with assms m refs third show ?thesis
        unfolding step_third_walking [OF m Cons third Some]
        by (auto simp: loading_phase_def actions_of_def less_Suc_eq)
    qed
  qed
qed

lemma loading_phase_registerAll: "loading_phase s \<Longrightarrow> loading_phase (registerAll evs s)"
  by (induction evs s rule: registerAll.induct) (simp_all add: loading_phase_step)

lemma loading_phase_run: "loading_phase (registerAll evs (onAvatarLoaded initial))"
  by (simp add: loading_phase_registerAll loading_phase_start)

lemma loading_phase_idle:
  assumes "loading_phase s" and "loadedAnimations s < totalAnimations"
  shows "isLoading s \<and> currentActionRef s = None \<and> active_refs s = [] \<and> error s = None"
  using assms by (simp add: loading_phase_def active_refs_empty)

lemma transition_selects_walking:
  assumes P: "loading_phase s"
    and third: "Suc (loadedAnimations s) = totalAnimations"
    and anim: "animations fbxScene \<noteq> []"
    and s': "s' = onAnimationLoaded name fbxScene s"
  shows "case actionsRef s' ''walking'' of
           Some walking \<Rightarrow>
             currentActionRef s' = Some walking \<and> active_refs s' = [walking] \<and>
             map_option running (registered s' ''walking'') = Some True \<and>
             map_option time (registered s' ''walking'') = Some 0
         | None \<Rightarrow> currentActionRef s' = None \<and> active_refs s' = []"
proof -
  from P obtain mixer where m: "mixerRef s = Some mixer"
    by (auto simp: loading_phase_def)
  from anim obtain animation others where a: "animations fbxScene = animation # others"
    by (cases "animations fbxScene") auto
  from third have below: "loadedAnimations s < totalAnimations"
    by simp
  with P m have idle: "currentActionRef s = None" "\<forall>action \<in> set mixer. \<not> running action"
    and times: "\<forall>action \<in> set mixer. time action = 0"
    and refs: "\<And>n r. actionsRef s n = Some r \<Longrightarrow> r < length mixer"
    by (auto simp: loading_phase_def actions_of_def)
  let ?mixer = "mixer @ [new_action animation]"
  have stopped: "\<forall>action \<in> set ?mixer. \<not> running action"
    using idle by (simp add: new_action_def)
  have fresh: "\<forall>action \<in> set ?mixer. time action = 0"
    using times by (simp add: new_action_def)
  show ?thesis
  proof (cases "((actionsRef s)(name \<mapsto> length mixer)) ''walking''")
    case None
    show ?thesis
      unfolding s' step_third_no_walking [OF m a third None]
      using None idle stopped by (simp add: active_refs_def actions_of_def running_refs_empty)
  next
    case (Some walking)
    then have w: "walking < length ?mixer"
      using refs by (auto split: if_splits simp: less_Suc_eq)
    then have "?mixer ! walking \<in> set ?mixer"
      by (rule nth_mem)
    with fresh have "time (?mixer ! walking) = 0"
      by blast
    with w show ?thesis
      unfolding s' step_third_walking [OF m a third Some]
      using Some running_refs_play [OF stopped w]
      by (simp add: active_refs_def actions_of_def registered_def play_def)
  qed
qed

lemma no_transition_keeps_selection:
  assumes P: "loading_phase s"
    and other: "animations fbxScene = [] \<or> Suc (loadedAnimations s) \<noteq> totalAnimations"
    and s': "s' = onAnimationLoaded name fbxScene s"
  shows "currentActionRef s' = currentActionRef s \<and> active_refs s' = active_refs s"
proof (cases "animations fbxScene")
  case Nil
  with s' show ?thesis
    by (simp add: onAnimationLoaded_empty)
next
  case (Cons animation others)
  with other have nt: "Suc (loadedAnimations s) \<noteq> totalAnimations"
    by simp
  from P obtain mixer where m: "mixerRef s = Some mixer"
    by (auto simp: loading_phase_def)
  show ?thesis
    unfolding s' step_not_third [OF m Cons nt]
    using m by (simp add: active_refs_def actions_of_def running_refs_snoc new_action_def)
qed

text \<open>The orders of three completions, and the state each of them leads to.\<close>

lemma perm3:
  assumes "mset xs = mset [a, b, c]"
  shows "xs \<in> {[a,b,c],[a,c,b],[b,a,c],[b,c,a],[c,a,b],[c,b,a]}"
proof -
  from assms have "length xs = length [a, b, c]"
    by (rule mset_eq_length)
  then obtain x y z where xs: "xs = [x, y, z]"
    by (auto simp: length_Suc_conv)
  have "x \<in># mset [a, b, c]"
    using assms xs by (metis list.set_intros(1) set_mset_mset)
  then consider "x = a" | "x = b" | "x = c"
    by auto
  then show ?thesis
  proof cases
    case 1
    with assms xs have "[y, z] = [b, c] \<or> [y, z] = [c, b]"
      by (auto simp: add_eq_conv_ex)
    with 1 xs show ?thesis by auto
  next
    case 2
    with assms xs have "[y, z] = [a, c] \<or> [y, z] = [c, a]"
      by (auto simp: add_eq_conv_ex)
    with 2 xs show ?thesis by auto
  next
    case 3
    with assms xs have "[y, z] = [a, b] \<or> [y, z] = [b, a]"
      by (auto simp: add_eq_conv_ex)
    with 3 xs show ?thesis by auto
  qed
qed

lemmas run_defs =
  onAnimationLoaded_def onAvatarLoaded_def initial_def clipAction_def on_action_def
  totalAnimations_def play_def stop_def reset_def playAnimation_def

lemmas view_defs =
  registered_def actions_of_def active_refs_def running_refs_Nil running_refs_Cons

lemmas sample_scenes = walking_fbx_def sitting_fbx_def standing_up_fbx_def empty_fbx_def

lemma order_wsu:
  assumes "animations gw = cw # rw" "animations gs = cs # rs" "animations gu = cu # ru"
  shows "ready_view (registerAll [(''walking'', gw), (''sitting'', gs), (''standing_up'', gu)] (onAvatarLoaded initial)) cw cs cu"
  using assms by (auto simp add: ready_view_def run_defs view_defs)

lemma order_wus:
  assumes "animations gw = cw # rw" "animations gs = cs # rs" "animations gu = cu # ru"
  shows "ready_view (registerAll [(''walking'', gw), (''standing_up'', gu), (''sitting'', gs)] (onAvatarLoaded initial)) cw cs cu"
  using assms by (auto simp add: ready_view_def run_defs view_defs)

lemma order_swu:
  assumes "animations gw = cw # rw" "animations gs = cs # rs" "animations gu = cu # ru"
  shows "ready_view (registerAll [(''sitting'', gs), (''walking'', gw), (''standing_up'', gu)] (onAvatarLoaded initial)) cw cs cu"
  using assms by (auto simp add: ready_view_def run_defs view_defs)

lemma order_suw:
  assumes "animations gw = cw # rw" "animations gs = cs # rs" "animations gu = cu # ru"
  shows "ready_view (registerAll [(''sitting'', gs), (''standing_up'', gu), (''walking'', gw)] (onAvatarLoaded initial)) cw cs cu"
  using assms by (auto simp add: ready_view_def run_defs view_defs)

lemma order_uws:
  assumes "animations gw = cw # rw" "animations gs = cs # rs" "animations gu = cu # ru"
  shows "ready_view (registerAll [(''standing_up'', gu), (''walking'', gw), (''sitting'', gs)] (onAvatarLoaded initial)) cw cs cu"
  using assms by (auto simp add: ready_view_def run_defs view_defs)

lemma order_usw:
  assumes "animations gw = cw # rw" "animations gs = cs # rs" "animations gu = cu # ru"
  shows "ready_view (registerAll [(''standing_up'', gu), (''sitting'', gs), (''walking'', gw)] (onAvatarLoaded initial)) cw cs cu"
  using assms by (auto simp add: ready_view_def run_defs view_defs)

section \<open>Registration of the animations\<close>

text \<open>
  Claim C6. The three animations, each loaded scene holding at least one clip, are registered
  in any of the six orders of arrival, starting from the state in which the mixer has just been
  constructed. The final state is the same for every order: the loading indicator is cleared,
  the registry holds the three names with the retargeted first clips of their scenes, walking
  is the current action and the only one running, and it is at its first frame.
\<close>

theorem arrival_order_irrelevant:
  assumes "animations walking_scene = walking_clip # walking_others"
    and "animations sitting_scene = sitting_clip # sitting_others"
    and "animations standing_up_scene = standing_up_clip # standing_up_others"
    and "mset evs = mset [(''walking'', walking_scene), (''sitting'', sitting_scene),
                          (''standing_up'', standing_up_scene)]"
    and "s = registerAll evs (onAvatarLoaded initial)"
  shows "\<not> isLoading s \<and> error s = None \<and>
     dom (actionsRef s) = {''walking'', ''sitting'', ''standing_up''} \<and>
     registered s ''walking'' =
       Some \<lparr> action_clip = retargetAnimation walking_clip, running = True, time = 0 \<rparr> \<and>
     registered s ''sitting'' =
       Some \<lparr> action_clip = retargetAnimation sitting_clip, running = False, time = 0 \<rparr> \<and>
     registered s ''standing_up'' =
       Some \<lparr> action_clip = retargetAnimation standing_up_clip, running = False, time = 0 \<rparr> \<and>
     currentActionRef s = actionsRef s ''walking'' \<and>
     map Some (active_refs s) = [actionsRef s ''walking'']"
proof -
  note orders = order_wsu [OF assms(1-3)] order_wus [OF assms(1-3)] order_swu [OF assms(1-3)]
    order_suw [OF assms(1-3)] order_uws [OF assms(1-3)] order_usw [OF assms(1-3)]
  from perm3 [OF assms(4)] have "ready_view s walking_clip sitting_clip standing_up_clip"
    unfolding assms(5) using orders by auto
  then show ?thesis
    by (simp add: ready_view_def)
qed

text \<open>With standing up arriving first, walking second and sitting last.\<close>

theorem arrival_order_irrelevant_witness:
  "mset [(''standing_up'', standing_up_fbx), (''walking'', walking_fbx), (''sitting'', sitting_fbx)] =
   mset [(''walking'', walking_fbx), (''sitting'', sitting_fbx), (''standing_up'', standing_up_fbx)] \<and>
   \<not> isLoading (registerAll
       [(''standing_up'', standing_up_fbx), (''walking'', walking_fbx), (''sitting'', sitting_fbx)]
       (onAvatarLoaded initial)) \<and>
   registered (registerAll
       [(''standing_up'', standing_up_fbx), (''walking'', walking_fbx), (''sitting'', sitting_fbx)]
       (onAvatarLoaded initial)) ''walking'' =
     Some \<lparr> action_clip = retargetAnimation sample_clip, running = True, time = 0 \<rparr> \<and>
   currentActionRef (registerAll
       [(''standing_up'', standing_up_fbx), (''walking'', walking_fbx), (''sitting'', sitting_fbx)]
       (onAvatarLoaded initial)) = Some 1 \<and>
   active_refs (registerAll
       [(''standing_up'', standing_up_fbx), (''walking'', walking_fbx), (''sitting'', sitting_fbx)]
       (onAvatarLoaded initial)) = [1]"
proof -
  let ?evs = "[(''standing_up'', standing_up_fbx), (''walking'', walking_fbx), (''sitting'', sitting_fbx)]"
  have w: "animations walking_fbx = sample_clip # []"
    and s: "animations sitting_fbx = sample_prefix_free # []"
    and u: "animations standing_up_fbx = sample_clip\<lparr>clip_duration := 2\<rparr> # [sample_prefix_free]"
    by (simp_all add: sample_scenes)
  have p: "mset ?evs =
    mset [(''walking'', walking_fbx), (''sitting'', sitting_fbx), (''standing_up'', standing_up_fbx)]"
    by simp
  have r: "actionsRef (registerAll ?evs (onAvatarLoaded initial)) ''walking'' = Some 1"
    by (simp add: run_defs sample_scenes)
  note same = arrival_order_irrelevant [OF w s u p refl]
  from same r have "map Some (active_refs (registerAll ?evs (onAvatarLoaded initial))) = [Some 1]"
    by (simp only:)
  then have "active_refs (registerAll ?evs (onAvatarLoaded initial)) = [1]"
    by (simp add: map_eq_Cons_conv)
  with same r p show ?thesis
    by (simp del: registerAll.simps)
qed

text \<open>
  Claim C7. After any sequence of completions, one per name as the component issues them,
  that leaves fewer than three names registered, the loading indicator is still set, no
  action is selected and no action is running.
\<close>

theorem fewer_than_three_stays_loading:
  assumes "distinct (map fst evs)"
    and "s = registerAll evs (onAvatarLoaded initial)"
    and "card (dom (actionsRef s)) < 3"
  shows "isLoading s \<and> currentActionRef s = None \<and> active_refs s = []"
proof -
  from assms have "loadedAnimations s < totalAnimations"
    by (simp add: registry_card totalAnimations_def)
  moreover from assms(2) have "loading_phase s"
    by (simp add: loading_phase_run)
  ultimately show ?thesis
    by (simp add: loading_phase_idle)
qed

text \<open>With sitting and walking loaded, and standing up pending.\<close>

theorem fewer_than_three_stays_loading_witness:
  "map fst [(''sitting'', sitting_fbx), (''walking'', walking_fbx)] = [''sitting'', ''walking''] \<and>
   dom (actionsRef (registerAll [(''sitting'', sitting_fbx), (''walking'', walking_fbx)]
          (onAvatarLoaded initial))) = {''sitting'', ''walking''} \<and>
   isLoading (registerAll [(''sitting'', sitting_fbx), (''walking'', walking_fbx)]
          (onAvatarLoaded initial)) \<and>
   currentActionRef (registerAll [(''sitting'', sitting_fbx), (''walking'', walking_fbx)]
          (onAvatarLoaded initial)) = None \<and>
   active_refs (registerAll [(''sitting'', sitting_fbx), (''walking'', walking_fbx)]
          (onAvatarLoaded initial)) = []"
proof -
  let ?evs = "[(''sitting'', sitting_fbx), (''walking'', walking_fbx)]"
  have names: "distinct (map fst ?evs)"
    by simp
  have registry: "dom (actionsRef (registerAll ?evs (onAvatarLoaded initial))) =
      {''sitting'', ''walking''}"
    by (simp add: registerAll_dom start_facts registers_def sitting_fbx_def walking_fbx_def
        del: registerAll.simps)
  have "card {''sitting'', ''walking''} < (3::nat)"
    by simp
  with registry have "card (dom (actionsRef (registerAll ?evs (onAvatarLoaded initial)))) < 3"
    by simp
  from fewer_than_three_stays_loading [OF names refl this] registry show ?thesis
    by simp
qed

text \<open>
  The completions of the loads when no button is pressed in between, one completion per
  name. The loading indicator is cleared on exactly the completion that brings the registry
  to three names, which are the three expected names when only those are loaded, and it is
  never set again. On that completion the walking action, if registered, becomes the current
  action, is the one action running and is at its first frame; if walking is not registered,
  no action is selected or running. On every other completion the selection and the running
  actions stay as they were.
\<close>

lemma registration_only_transition:
  assumes "distinct (map fst (before @ [(name, fbxScene)]))"
    and "s = registerAll before (onAvatarLoaded initial)"
    and "s' = onAnimationLoaded name fbxScene s"
  shows "((isLoading s \<and> \<not> isLoading s') \<longleftrightarrow>
            (card (dom (actionsRef s)) < 3 \<and> card (dom (actionsRef s')) = 3)) \<and>
         (set (map fst (before @ [(name, fbxScene)])) \<subseteq> {''walking'', ''sitting'', ''standing_up''} \<longrightarrow>
            (card (dom (actionsRef s')) = 3 \<longleftrightarrow>
             dom (actionsRef s') = {''walking'', ''sitting'', ''standing_up''})) \<and>
         (\<not> isLoading s \<longrightarrow> \<not> isLoading s') \<and>
         (isLoading s \<and> \<not> isLoading s' \<longrightarrow>
            (case actionsRef s' ''walking'' of
               Some walking \<Rightarrow>
                 currentActionRef s' = Some walking \<and> active_refs s' = [walking] \<and>
                 map_option running (registered s' ''walking'') = Some True \<and>
                 map_option time (registered s' ''walking'') = Some 0
             | None \<Rightarrow> currentActionRef s' = None \<and> active_refs s' = [])) \<and>
         (\<not> (isLoading s \<and> \<not> isLoading s') \<longrightarrow>
            currentActionRef s' = currentActionRef s \<and> active_refs s' = active_refs s)"
proof -
  from assms(2) have P: "loading_phase s"
    by (simp add: loading_phase_run)
  then have P': "loading_phase s'"
    unfolding assms(3) by (rule loading_phase_step)
  from assms(2,3) have run': "s' = registerAll (before @ [(name, fbxScene)]) (onAvatarLoaded initial)"
    by (simp add: registerAll_append)
  from assms(1) have "distinct (map fst before)"
    by simp
  then have c: "card (dom (actionsRef s)) = loadedAnimations s"
    unfolding assms(2) by (rule registry_card)
  from assms(1) have c': "card (dom (actionsRef s')) = loadedAnimations s'"
    unfolding run' by (rule registry_card)
  from P have "mixerRef s \<noteq> None"
    by (simp add: loading_phase_def)
  then have l: "loadedAnimations s' =
      loadedAnimations s + (if animations fbxScene = [] then 0 else 1)"
    unfolding assms(3) by (rule onAnimationLoaded_loaded)
  from P have i: "isLoading s \<longleftrightarrow> loadedAnimations s < 3"
    by (simp add: loading_phase_def totalAnimations_def)
  from P' have i': "isLoading s' \<longleftrightarrow> loadedAnimations s' < 3"
    by (simp add: loading_phase_def totalAnimations_def)
  have transition: "(isLoading s \<and> \<not> isLoading s') \<longleftrightarrow>
      (animations fbxScene \<noteq> [] \<and> Suc (loadedAnimations s) = totalAnimations)"
    using i i' l by (auto simp: totalAnimations_def)
  have first: "(isLoading s \<and> \<not> isLoading s') \<longleftrightarrow>
      (card (dom (actionsRef s)) < 3 \<and> card (dom (actionsRef s')) = 3)"
    using i i' l c c' by auto
  have second: "card (dom (actionsRef s')) = 3 \<longleftrightarrow>
      dom (actionsRef s') = {''walking'', ''sitting'', ''standing_up''}"
    if names: "set (map fst (before @ [(name, fbxScene)])) \<subseteq> {''walking'', ''sitting'', ''standing_up''}"
  proof
    have "dom (actionsRef s') \<subseteq> fst ` set (before @ [(name, fbxScene)])"
      unfolding run' by (auto simp: registerAll_dom start_facts)
    with names have sub: "dom (actionsRef s') \<subseteq> {''walking'', ''sitting'', ''standing_up''}"
      by auto
    assume "card (dom (actionsRef s')) = 3"
    then have "card (dom (actionsRef s')) = card {''walking'', ''sitting'', ''standing_up''}"
      by simp
    with sub show "dom (actionsRef s') = {''walking'', ''sitting'', ''standing_up''}"
      by (intro card_subset_eq) simp_all
  next
    assume "dom (actionsRef s') = {''walking'', ''sitting'', ''standing_up''}"
    then show "card (dom (actionsRef s')) = 3"
      by simp
  qed
  have third: "\<not> isLoading s \<longrightarrow> \<not> isLoading s'"
    using i i' l by auto
  have fourth: "case actionsRef s' ''walking'' of
        Some walking \<Rightarrow>
          currentActionRef s' = Some walking \<and> active_refs s' = [walking] \<and>
          map_option running (registered s' ''walking'') = Some True \<and>
          map_option time (registered s' ''walking'') = Some 0
      | None \<Rightarrow> currentActionRef s' = None \<and> active_refs s' = []"
    if "isLoading s \<and> \<not> isLoading s'"
    using that transition transition_selects_walking [OF P _ _ assms(3)] by blast
  have fifth: "currentActionRef s' = currentActionRef s \<and> active_refs s' = active_refs s"
    if "\<not> (isLoading s \<and> \<not> isLoading s')"
    using that transition no_transition_keeps_selection [OF P _ assms(3)] by blast
  from first second third fourth fifth show ?thesis
    by blast
qed

text \<open>
  With walking and sitting loaded, on the completion of standing up; and with sitting and
  standing up loaded, on the completion of a load under another name.
\<close>

lemma registration_only_transition_example:
  "isLoading (registerAll [(''walking'', walking_fbx), (''sitting'', sitting_fbx)]
      (onAvatarLoaded initial)) \<and>
   \<not> isLoading (onAnimationLoaded ''standing_up'' standing_up_fbx
      (registerAll [(''walking'', walking_fbx), (''sitting'', sitting_fbx)]
         (onAvatarLoaded initial))) \<and>
   currentActionRef (onAnimationLoaded ''standing_up'' standing_up_fbx
      (registerAll [(''walking'', walking_fbx), (''sitting'', sitting_fbx)]
         (onAvatarLoaded initial))) = Some 0 \<and>
   active_refs (onAnimationLoaded ''standing_up'' standing_up_fbx
      (registerAll [(''walking'', walking_fbx), (''sitting'', sitting_fbx)]
         (onAvatarLoaded initial))) = [0] \<and>
   map_option time (registered (onAnimationLoaded ''standing_up'' standing_up_fbx
      (registerAll [(''walking'', walking_fbx), (''sitting'', sitting_fbx)]
         (onAvatarLoaded initial))) ''walking'') = Some 0 \<and>
   \<not> isLoading (onAnimationLoaded ''idle'' walking_fbx
      (registerAll [(''sitting'', sitting_fbx), (''standing_up'', standing_up_fbx)]
         (onAvatarLoaded initial))) \<and>
   actionsRef (onAnimationLoaded ''idle'' walking_fbx
      (registerAll [(''sitting'', sitting_fbx), (''standing_up'', standing_up_fbx)]
         (onAvatarLoaded initial))) ''walking'' = None \<and>
   currentActionRef (onAnimationLoaded ''idle'' walking_fbx
      (registerAll [(''sitting'', sitting_fbx), (''standing_up'', standing_up_fbx)]
         (onAvatarLoaded initial))) = None \<and>
   active_refs (onAnimationLoaded ''idle'' walking_fbx
      (registerAll [(''sitting'', sitting_fbx), (''standing_up'', standing_up_fbx)]
         (onAvatarLoaded initial))) = []"
proof -
  let ?s = "registerAll [(''walking'', walking_fbx), (''sitting'', sitting_fbx)]
      (onAvatarLoaded initial)"
  let ?s' = "onAnimationLoaded ''standing_up'' standing_up_fbx ?s"
  have names: "distinct (map fst ([(''walking'', walking_fbx), (''sitting'', sitting_fbx)] @
      [(''standing_up'', standing_up_fbx)]))"
    by simp
  note once = registration_only_transition [OF names refl refl]
  have "card (dom (actionsRef ?s)) < 3 \<and> card (dom (actionsRef ?s')) = 3"
    by (simp add: run_defs sample_scenes)
  with once have transition: "isLoading ?s \<and> \<not> isLoading ?s'"
    by blast
  with once have "case actionsRef ?s' ''walking'' of
        Some walking \<Rightarrow>
          currentActionRef ?s' = Some walking \<and> active_refs ?s' = [walking] \<and>
          map_option running (registered ?s' ''walking'') = Some True \<and>
          map_option time (registered ?s' ''walking'') = Some 0
      | None \<Rightarrow> currentActionRef ?s' = None \<and> active_refs ?s' = []"
    by blast
  moreover have "actionsRef ?s' ''walking'' = Some 0"
    by (simp add: run_defs sample_scenes)
  ultimately have with_walking: "currentActionRef ?s' = Some 0 \<and> active_refs ?s' = [0] \<and>
      map_option time (registered ?s' ''walking'') = Some 0"
    by simp
  let ?t = "registerAll [(''sitting'', sitting_fbx), (''standing_up'', standing_up_fbx)]
      (onAvatarLoaded initial)"
  let ?t' = "onAnimationLoaded ''idle'' walking_fbx ?t"
  have other_names: "distinct (map fst ([(''sitting'', sitting_fbx),
      (''standing_up'', standing_up_fbx)] @ [(''idle'', walking_fbx)]))"
    by simp
  note other = registration_only_transition [OF other_names refl refl]
  have "card (dom (actionsRef ?t)) < 3 \<and> card (dom (actionsRef ?t')) = 3"
    by (simp add: run_defs sample_scenes)
  with other have other_transition: "isLoading ?t \<and> \<not> isLoading ?t'"
    by blast
  with other have "case actionsRef ?t' ''walking'' of
        Some walking \<Rightarrow>
          currentActionRef ?t' = Some walking \<and> active_refs ?t' = [walking] \<and>
          map_option running (registered ?t' ''walking'') = Some True \<and>
          map_option time (registered ?t' ''walking'') = Some 0
      | None \<Rightarrow> currentActionRef ?t' = None \<and> active_refs ?t' = []"
    by blast
  moreover have absent: "actionsRef ?t' ''walking'' = None"
    by (simp add: run_defs sample_scenes)
  ultimately have "currentActionRef ?t' = None \<and> active_refs ?t' = []"
    by simp
  with with_walking transition other_transition absent show ?thesis
    by blast
qed

text \<open>
  Claim C9. On the completion that brings the registry to three names, the walking action
  is stated to be marked active and started from the beginning. Here a button was pressed
  while the loads were pending. After Walking was pressed and half a second of frames has
  passed, the third completion clears the loading indicator and selects walking, which goes
  on from half a second instead of its first frame. After Sitting was pressed, the third
  completion selects and starts walking while sitting still runs.
\<close>

theorem default_selection_after_early_press:
  "isLoading walking_midway \<and>
   loadedAnimations walking_midway = 2 \<and>
   map_option time (registered walking_midway ''walking'') = Some (1 / 2) \<and>
   \<not> isLoading (onAnimationLoaded ''standing_up'' standing_up_fbx walking_midway) \<and>
   dom (actionsRef (onAnimationLoaded ''standing_up'' standing_up_fbx walking_midway)) =
     {''walking'', ''sitting'', ''standing_up''} \<and>
   currentActionRef (onAnimationLoaded ''standing_up'' standing_up_fbx walking_midway) = Some 0 \<and>
   map_option running
     (registered (onAnimationLoaded ''standing_up'' standing_up_fbx walking_midway) ''walking'') =
     Some True \<and>
   map_option time
     (registered (onAnimationLoaded ''standing_up'' standing_up_fbx walking_midway) ''walking'') =
     Some (1 / 2) \<and>
   isLoading sitting_pressed_early \<and>
   currentActionRef sitting_pressed_early = Some 1 \<and>
   active_refs sitting_pressed_early = [1] \<and>
   \<not> isLoading (onAnimationLoaded ''standing_up'' standing_up_fbx sitting_pressed_early) \<and>
   currentActionRef (onAnimationLoaded ''standing_up'' standing_up_fbx sitting_pressed_early) =
     Some 0 \<and>
   active_refs (onAnimationLoaded ''standing_up'' standing_up_fbx sitting_pressed_early) = [0, 1]"
  by (auto simp add: walking_midway_def sitting_pressed_early_def animate_def advance_def
      run_defs view_defs sample_scenes)

text \<open>
  Claim C10. A loaded scene without animations leaves the state of the component as it was:
  nothing is registered, the counter is not advanced and no error is set. When it is one of
  at most three completions, the loading indicator stays set, no action is selected and no
  action is running once all of them have arrived.
\<close>

theorem empty_asset_never_ready:
  assumes "animations fbxScene = []"
    and "(name, fbxScene) \<in> set evs"
    and "length evs \<le> totalAnimations"
    and "s' = registerAll evs (onAvatarLoaded initial)"
  shows "onAnimationLoaded name fbxScene s = s \<and>
         isLoading s' \<and> currentActionRef s' = None \<and> active_refs s' = [] \<and> error s' = None"
proof -
  from assms(1) have "\<not> registers (name, fbxScene)"
    by (simp add: registers_def)
  with assms(2) have "length (filter registers evs) < length evs"
    by (rule length_filter_less)
  with assms(3,4) have "loadedAnimations s' < totalAnimations"
    by (simp add: registerAll_loaded start_facts)
  moreover from assms(4) have "loading_phase s'"
    by (simp add: loading_phase_run)
  ultimately show ?thesis
    using assms(1) by (simp add: loading_phase_idle onAnimationLoaded_empty)
qed

text \<open>With a sitting scene that has no animation, between the other two.\<close>

theorem empty_asset_never_ready_witness:
  "animations empty_fbx = [] \<and>
   onAnimationLoaded ''sitting'' empty_fbx
       (onAnimationLoaded ''walking'' walking_fbx (onAvatarLoaded initial)) =
     onAnimationLoaded ''walking'' walking_fbx (onAvatarLoaded initial) \<and>
   isLoading (registerAll
       [(''walking'', walking_fbx), (''sitting'', empty_fbx), (''standing_up'', standing_up_fbx)]
       (onAvatarLoaded initial)) \<and>
   currentActionRef (registerAll
       [(''walking'', walking_fbx), (''sitting'', empty_fbx), (''standing_up'', standing_up_fbx)]
       (onAvatarLoaded initial)) = None \<and>
   active_refs (registerAll
       [(''walking'', walking_fbx), (''sitting'', empty_fbx), (''standing_up'', standing_up_fbx)]
       (onAvatarLoaded initial)) = [] \<and>
   error (registerAll
       [(''walking'', walking_fbx), (''sitting'', empty_fbx), (''standing_up'', standing_up_fbx)]
       (onAvatarLoaded initial)) = None"
proof -
  let ?evs = "[(''walking'', walking_fbx), (''sitting'', empty_fbx), (''standing_up'', standing_up_fbx)]"
  have e: "animations empty_fbx = []"
    by (simp add: empty_fbx_def)
  have m: "(''sitting'', empty_fbx) \<in> set ?evs"
    by simp
  have l: "length ?evs \<le> totalAnimations"
    by (simp add: totalAnimations_def)
  from empty_asset_never_ready
      [OF e m l refl, of "onAnimationLoaded ''walking'' walking_fbx (onAvatarLoaded initial)"] e
  show ?thesis
    by blast
qed

section \<open>Switching the animation\<close>

text \<open>Where \<open>playAnimation\<close> changes nothing, and what it changes for an unregistered name.\<close>

lemma playAnimation_without_mixer: "mixerRef s = None \<Longrightarrow> playAnimation name s = s"
  by (simp add: playAnimation_def)

lemma playAnimation_unregistered_idle:
  "actionsRef s name = None \<Longrightarrow> currentActionRef s = None \<Longrightarrow> playAnimation name s = s"
  by (simp add: playAnimation_def split: option.splits)

lemma playAnimation_unregistered_current:
  assumes "mixerRef s = Some mixer" and "actionsRef s name = None"
    and "currentActionRef s = Some current"
  shows "playAnimation name s = s\<lparr>mixerRef := Some (mixer[current := stop (mixer ! current)])\<rparr>"
  using assms by (simp add: playAnimation_def on_action_def)

text \<open>
  What \<open>playAnimation\<close> does for a registered name. With the mixer constructed and the name
  registered to an action of the mixer, that action becomes the current one, running and at
  its first frame, also when it was the current action already; the action that was current
  before, if it is another one, does not run afterwards. When no action other than the
  current one was running before the call, the target is the one action that runs when the
  call returns.
\<close>

lemma playAnimation_registered:
  assumes m: "mixerRef s = Some mixer" and a: "actionsRef s name = Some action"
    and valid: "action < length mixer" and s': "s' = playAnimation name s"
  shows "currentActionRef s' = Some action \<and>
         map_option running (registered s' name) = Some True \<and>
         map_option time (registered s' name) = Some 0 \<and>
         (\<forall>current. currentActionRef s = Some current \<and> current \<noteq> action \<longrightarrow>
            current \<notin> set (active_refs s')) \<and>
         (set (active_refs s) \<subseteq> set_option (currentActionRef s) \<longrightarrow> active_refs s' = [action])"
proof -
  let ?stopped = "case currentActionRef s of None \<Rightarrow> mixer
      | Some ref \<Rightarrow> mixer[ref := stop (mixer ! ref)]"
  let ?reset = "?stopped[action := reset (?stopped ! action)]"
  let ?played = "?reset[action := play (?reset ! action)]"
  have len: "length ?stopped = length mixer"
    by (simp split: option.splits)
  from m a have eq: "s' = s\<lparr> mixerRef := Some ?played, currentActionRef := Some action \<rparr>"
    unfolding s' by (simp add: playAnimation_def on_action_def split: option.splits)
  from valid len have target: "registered s' name = Some (play (reset (?stopped ! action)))"
    unfolding eq using a by (simp add: registered_def actions_of_def)
  have previous: "current \<notin> set (active_refs s')"
    if "currentActionRef s = Some current" and "current \<noteq> action" for current
  proof
    assume "current \<in> set (active_refs s')"
    then have "current < length mixer" and "running (?played ! current)"
      unfolding eq using len by (simp_all add: active_refs_def actions_of_def running_refs_def)
    with that show False
      by (simp add: stop_def)
  qed
  have one: "active_refs s' = [action]"
    if "set (active_refs s) \<subseteq> set_option (currentActionRef s)"
  proof -
    from that m have "\<forall>x \<in> set ?stopped. \<not> running x"
      using stop_current_stops_all [of mixer "currentActionRef s"]
      by (simp add: active_refs_def actions_of_def)
    then have "\<forall>x \<in> set ?reset. \<not> running x"
      by (rule reset_keeps_stopped)
    moreover have "action < length ?reset"
      using valid len by simp
    ultimately have "running_refs ?played = [action]"
      by (rule running_refs_play)
    then show ?thesis
      unfolding eq by (simp add: active_refs_def actions_of_def)
  qed
  from target previous one show ?thesis
    unfolding eq by (simp add: play_def reset_def)
qed

text \<open>
  In a state where walking is current and halfway through: pressing walking restarts it from
  its first frame, pressing sitting stops it and starts sitting.
\<close>

lemma playAnimation_registered_example:
  "currentActionRef walking_in_progress = Some 0 \<and>
   active_refs walking_in_progress = [0] \<and>
   map_option time (registered walking_in_progress ''walking'') = Some (3 / 2) \<and>
   currentActionRef (playAnimation ''walking'' walking_in_progress) = Some 0 \<and>
   map_option running (registered (playAnimation ''walking'' walking_in_progress) ''walking'') =
     Some True \<and>
   map_option time (registered (playAnimation ''walking'' walking_in_progress) ''walking'') =
     Some 0 \<and>
   active_refs (playAnimation ''walking'' walking_in_progress) = [0] \<and>
   currentActionRef (playAnimation ''sitting'' walking_in_progress) = Some 1 \<and>
   active_refs (playAnimation ''sitting'' walking_in_progress) = [1]"
proof -
  obtain mixer where m: "mixerRef walking_in_progress = Some mixer" and l: "length mixer = 3"
    by (simp add: walking_in_progress_def)
  have w: "actionsRef walking_in_progress ''walking'' = Some 0"
    and s: "actionsRef walking_in_progress ''sitting'' = Some 1"
    by (simp_all add: walking_in_progress_def)
  have before: "currentActionRef walking_in_progress = Some 0"
    "active_refs walking_in_progress = [0]"
    "map_option time (registered walking_in_progress ''walking'') = Some (3 / 2)"
    by (simp_all add: walking_in_progress_def view_defs)
  from l have "0 < length mixer" and "1 < length mixer"
    by simp_all
  from playAnimation_registered [OF m w \<open>0 < length mixer\<close> refl]
    playAnimation_registered [OF m s \<open>1 < length mixer\<close> refl] before
  show ?thesis
    by simp
qed

text \<open>
  Claim C1. Calling \<open>playAnimation\<close> with a name that is not registered is stated to have no
  effect, the current action staying as it was. Here walking is registered, selected and
  running, and sitting is not registered: after \<open>playAnimation ''sitting''\<close> the walking
  action is still the current one but no longer runs, and no action runs.
\<close>

theorem switch_to_unregistered_stops_current:
  "actionsRef walking_selected ''sitting'' = None \<and>
   currentActionRef walking_selected = Some 0 \<and>
   map_option running (registered walking_selected ''walking'') = Some True \<and>
   active_refs walking_selected = [0] \<and>
   currentActionRef (playAnimation ''sitting'' walking_selected) = Some 0 \<and>
   map_option running (registered (playAnimation ''sitting'' walking_selected) ''walking'') =
     Some False \<and>
   active_refs (playAnimation ''sitting'' walking_selected) = []"
  by (simp add: walking_selected_def run_defs view_defs sample_scenes)

text \<open>
  Claim C8. For a registered name, \<open>playAnimation\<close> is stated to leave exactly one action
  active when it returns. Here the sitting button was pressed when two animations had loaded,
  and the third load then selected walking without stopping sitting. Switching to standing
  up, which is registered, stops walking and starts standing up: sitting and standing up both
  run when the call returns.
\<close>

theorem switch_after_early_selection_two_active:
  "map (actionsRef switched_while_loading) [''walking'', ''sitting'', ''standing_up''] =
     [Some 0, Some 1, Some 2] \<and>
   currentActionRef switched_while_loading = Some 0 \<and>
   active_refs switched_while_loading = [0, 1] \<and>
   currentActionRef (playAnimation ''standing_up'' switched_while_loading) = Some 2 \<and>
   active_refs (playAnimation ''standing_up'' switched_while_loading) = [1, 2] \<and>
   length (active_refs (playAnimation ''standing_up'' switched_while_loading)) = 2"
  by (simp add: switched_while_loading_def run_defs view_defs sample_scenes)

end
